theory Spec2Isabelle
  imports Main "HOL-Library.Multiset"
begin

section \<open>Python values used by \<open>main_async.py\<close>\<close>

text \<open>
  Exceptions are values. Only the class of an exception matters to the program: every
  handler in the file is \<open>except Exception\<close>. \<open>ClientError\<close> stands for a failure of
  the HTTP transport and \<open>OSError\<close> for a failure of the file system.
\<close>

datatype py_error = AttributeError | ValueError | KeyError | TypeError | ClientError | OSError

text \<open>
  Strings are lists of characters, and the model covers the ASCII range. The whitespace
  of \<open>str.strip\<close> is tab, line feed, vertical tab, form feed, carriage return, the four
  separators \<open>0x1C\<close>--\<open>0x1F\<close> and the space; \<open>int\<close> skips the same characters but
  the four separators.
\<close>

definition is_space :: "char \<Rightarrow> bool" where
  "is_space c = (c \<in> set [CHR 0x09, CHR 0x0A, CHR 0x0B, CHR 0x0C, CHR 0x0D,
                            CHR 0x1C, CHR 0x1D, CHR 0x1E, CHR 0x1F, CHR 0x20])"

definition strip :: "string \<Rightarrow> string" where
  "strip s = rev (dropWhile is_space (rev (dropWhile is_space s)))"

definition is_int_space :: "char \<Rightarrow> bool" where
  "is_int_space c = (c \<in> set [CHR 0x09, CHR 0x0A, CHR 0x0B, CHR 0x0C, CHR 0x0D, CHR 0x20])"

text \<open>\<open>s.split(' (', 1)[0]\<close>: the text before the first occurrence of a space followed
  by an opening parenthesis, the whole text when there is none.\<close>

fun before_paren :: "string \<Rightarrow> string" where
  "before_paren [] = []"
| "before_paren [c] = [c]"
| "before_paren (c # d # cs) =
     (if c = CHR '' '' \<and> d = CHR ''('' then [] else c # before_paren (d # cs))"

definition digit_val :: "char \<Rightarrow> nat option" where
  "digit_val c =
     (if of_char (CHR ''0'') \<le> (of_char c :: nat) \<and> (of_char c :: nat) \<le> of_char (CHR ''9'')
      then Some (of_char c - of_char (CHR ''0'')) else None)"

text \<open>The digits of a decimal literal: single underscores are allowed between digits.
  The flag says that the previous character was a digit.\<close>

fun int_digits :: "string \<Rightarrow> nat \<Rightarrow> bool \<Rightarrow> nat option" where
  "int_digits [] acc prev = (if prev then Some acc else None)"
| "int_digits (c # cs) acc prev =
     (if c = CHR ''_'' then (if prev \<and> cs \<noteq> [] then int_digits cs acc False else None)
      else (case digit_val c of
              None \<Rightarrow> None
            | Some d \<Rightarrow> int_digits cs (10 * acc + d) True))"

text \<open>\<open>int(s)\<close> for a string: surrounding whitespace is dropped, one sign is allowed,
  anything else raises \<open>ValueError\<close>; so does a literal of more than 4300 digits (the
  default limit of the interpreter on the conversion of integer strings).\<close>

definition py_int :: "string \<Rightarrow> py_error + int" where
  "py_int s =
     (case rev (dropWhile is_int_space (rev (dropWhile is_int_space s))) of
        [] \<Rightarrow> Inl ValueError
      | c # cs \<Rightarrow>
          (let neg = (c = CHR ''-'');
               ds = (if c = CHR ''-'' \<or> c = CHR ''+'' then cs else c # cs)
           in case int_digits ds 0 False of
                None \<Rightarrow> Inl ValueError
              | Some n \<Rightarrow>
                  if length (filter (\<lambda>d. d \<noteq> CHR ''_'') ds) > 4300 then Inl ValueError
                  else Inr (if neg then - int n else int n)))"

text \<open>The decimal digit of a number below ten.\<close>

definition digit_char :: "nat \<Rightarrow> char" where
  "digit_char d = ''0123456789'' ! d"

fun str_nat :: "nat \<Rightarrow> string" where
  "str_nat n = (if n < 10 then [digit_char n] else str_nat (n div 10) @ [digit_char (n mod 10)])"

declare str_nat.simps [simp del]

text \<open>\<open>str(i)\<close>, as an f-string formats an integer.\<close>

definition str_int :: "int \<Rightarrow> string" where
  "str_int i = (if i < 0 then CHR ''-'' # str_nat (nat (- i)) else str_nat (nat i))"

section \<open>Rows of the listing table\<close>

text \<open>
  The HTML parser is a library; a parsed element is modelled by what the program reads
  from it: its \<open>.string\<close> (\<open>None\<close> when the element has no single text child) and its
  attributes. A row is modelled by the results of the three searches the program makes in
  it: \<open>findChild(['LeftCellSpacer', 'a'])\<close>, \<open>find('td', class MiddleCellSpacer)\<close> and
  \<open>find('td', class EndCellSpacer)\<close>, each \<open>None\<close> when nothing is found.
\<close>

record tag =
  tag_string :: "string option"
  attrs :: "(string \<times> string) list"

record row =
  link_elem :: "tag option"
  middle_cell :: "tag option"
  end_cell :: "tag option"

text \<open>\<open>elem.string.method(...)\<close>: \<open>AttributeError\<close> when \<open>elem\<close> is \<open>None\<close> or its
  \<open>.string\<close> is \<open>None\<close>.\<close>

definition elem_string :: "tag option \<Rightarrow> py_error + string" where
  "elem_string e =
     (case e of
        None \<Rightarrow> Inl AttributeError
      | Some t \<Rightarrow> (case tag_string t of None \<Rightarrow> Inl AttributeError | Some s \<Rightarrow> Inr s))"

definition row_form_number :: "row \<Rightarrow> py_error + string" where
  "row_form_number r =
     (case elem_string (link_elem r) of Inl e \<Rightarrow> Inl e | Inr s \<Rightarrow> Inr (before_paren s))"

definition row_current_year :: "row \<Rightarrow> py_error + int" where
  "row_current_year r =
     (case elem_string (end_cell r) of Inl e \<Rightarrow> Inl e | Inr s \<Rightarrow> py_int (strip s))"

definition row_form_title :: "row \<Rightarrow> py_error + string" where
  "row_form_title r =
     (case elem_string (middle_cell r) of Inl e \<Rightarrow> Inl e | Inr s \<Rightarrow> Inr (strip s))"

section \<open>Aggregation of one batch of rows\<close>

record form =
  form_number :: string
  form_title :: string
  min_year :: int
  max_year :: int

datatype log_entry =
    ParseLog py_error
  | SaveLog py_error
  | StatusLog int

text \<open>\<open>is_key_in_dict\<close>: the index of the first form with the key, \<open>None\<close> when the
  loop ends without a \<open>return\<close>.\<close>

fun is_key_in_dict :: "string \<Rightarrow> form list \<Rightarrow> nat option" where
  "is_key_in_dict dict_key [] = None"
| "is_key_in_dict dict_key (d # array) =
     (if form_number d = dict_key then Some 0
      else map_option Suc (is_key_in_dict dict_key array))"

text \<open>The body of the \<open>try\<close> in \<open>parse_page_forms_json\<close>, in the order of the source:
  key, year, lookup; the title is read only when the key is new.\<close>

definition parse_row :: "row \<Rightarrow> form list \<Rightarrow> py_error + form list" where
  "parse_row r page_forms =
     (case row_form_number r of
        Inl e \<Rightarrow> Inl e
      | Inr fn \<Rightarrow>
          (case row_current_year r of
             Inl e \<Rightarrow> Inl e
           | Inr current_year \<Rightarrow>
               (case is_key_in_dict fn page_forms of
                  None \<Rightarrow>
                    (case row_form_title r of
                       Inl e \<Rightarrow> Inl e
                     | Inr t \<Rightarrow>
                         Inr (page_forms @
                              [\<lparr>form_number = fn, form_title = t,
                                min_year = current_year, max_year = current_year\<rparr>]))
                | Some i \<Rightarrow>
                    Inr (if min_year (page_forms ! i) > current_year
                         then page_forms[i := (page_forms ! i)\<lparr>min_year := current_year\<rparr>]
                         else if max_year (page_forms ! i) < current_year
                         then page_forms[i := (page_forms ! i)\<lparr>max_year := current_year\<rparr>]
                         else page_forms))))"

text \<open>The loop over the rows: an exception of the body is logged and the loop goes on
  with the next row.\<close>

fun parse_loop :: "row list \<Rightarrow> form list \<Rightarrow> log_entry list \<Rightarrow> form list \<times> log_entry list" where
  "parse_loop [] page_forms lg = (page_forms, lg)"
| "parse_loop (r # rows) page_forms lg =
     (case parse_row r page_forms of
        Inl e \<Rightarrow> parse_loop rows page_forms (lg @ [ParseLog e])
      | Inr page_forms' \<Rightarrow> parse_loop rows page_forms' lg)"

text \<open>The value of the local list \<open>page_forms\<close> when the loop of one call ends.\<close>

definition page_forms_of :: "row list \<Rightarrow> form list" where
  "page_forms_of rows = fst (parse_loop rows [] [])"

section \<open>The world outside the program\<close>

text \<open>
  A response of the HTTP client carries a status and a body. The session is an
  \<open>aiohttp.ClientSession\<close>, and the response it gives is an \<open>aiohttp.ClientResponse\<close>:
  that class has the attribute \<open>status\<close>, which the test of \<open>load_page\<close> reads, and
  the method \<open>read\<close>; it has no attribute \<open>status_code\<close> (the name that other HTTP
  libraries use), so the evaluation of \<open>resp.status_code\<close> raises \<open>AttributeError\<close>.
\<close>

record response =
  status :: int
  content :: string

definition status_code :: "response \<Rightarrow> py_error + int" where
  "status_code resp = Inl AttributeError"

text \<open>
  The environment answers what the program cannot decide: what \<open>session.get\<close> gives for
  a URL (a response, or an exception of the transport), what the HTML parser finds in a
  page (all \<open>tr\<close> rows of the table of class \<open>picklist-dataTable\<close>, or \<open>None\<close> when the
  page has no such table), whether creating a directory or opening a file for writing
  fails, and how \<open>json.dumps\<close> prints a record.
\<close>

record env =
  session_get :: "string \<Rightarrow> py_error + response"
  find_table :: "string \<Rightarrow> row list option"
  mkdir_error :: "string \<Rightarrow> py_error option"
  open_error :: "string \<Rightarrow> py_error option"
  json_dumps :: "form \<Rightarrow> string"

datatype request = PageRequest string | FileRequest string

text \<open>
  What the program does to the world: the requests it sends (in order, marked by the
  function that sends them), the lines it logs, the directories it creates and the files
  it writes.
\<close>

record world =
  requests :: "request list"
  logged :: "log_entry list"
  dirs :: "string set"
  files :: "string \<rightharpoonup> string"

definition MIN_YEAR :: int where "MIN_YEAR = 2018"
definition MAX_YEAR :: int where "MAX_YEAR = 2020"

text \<open>\<open>load_page\<close>: the body for a status from 200 to 299. On any other status the
  message of the log line is built first, from \<open>resp.status_code\<close>; only with a value
  for it would the line be logged and \<open>None\<close> be returned. An exception of
  \<open>session.get\<close> is not caught here.\<close>

definition load_page :: "env \<Rightarrow> string \<Rightarrow> world \<Rightarrow> (py_error + string option) \<times> world" where
  "load_page ev url w =
     (case session_get ev url of
        Inl e \<Rightarrow> (Inl e, w)
      | Inr resp \<Rightarrow>
          (if 200 \<le> status resp \<and> status resp \<le> 299 then (Inr (Some (content resp)), w)
           else (case status_code resp of
                   Inl e \<Rightarrow> (Inl e, w)
                 | Inr c \<Rightarrow> (Inr None, w\<lparr>logged := logged w @ [StatusLog c]\<rparr>))))"

definition parse_page_forms_json :: "env \<Rightarrow> row list \<Rightarrow> world \<Rightarrow> string list \<times> world" where
  "parse_page_forms_json ev rows w =
     (case parse_loop rows [] (logged w) of
        (page_forms, lg) \<Rightarrow> (map (json_dumps ev) page_forms, w\<lparr>logged := lg\<rparr>))"

definition pdf_filename :: "string \<Rightarrow> int \<Rightarrow> string" where
  "pdf_filename fn current_year = fn @ ''/'' @ fn @ ''_'' @ str_int current_year @ ''.pdf''"

text \<open>\<open>open(filename, 'wb')\<close> creates the file, empty; \<open>f.write(None)\<close> raises
  \<open>TypeError\<close> and leaves it so.\<close>

definition write_file :: "string \<Rightarrow> string option \<Rightarrow> world \<Rightarrow> (py_error + unit) \<times> world" where
  "write_file filename resp w =
     (case resp of
        None \<Rightarrow> (Inl TypeError, w\<lparr>files := (files w)(filename \<mapsto> [])\<rparr>)
      | Some b \<Rightarrow> (Inr (), w\<lparr>files := (files w)(filename \<mapsto> b)\<rparr>))"

text \<open>\<open>elem.attrs[name]\<close>: \<open>KeyError\<close> is the value \<open>None\<close> here. The program reads an
  attribute only after \<open>elem.string\<close>, which has raised when \<open>elem\<close> is \<open>None\<close>.\<close>

definition elem_attr :: "tag option \<Rightarrow> string \<Rightarrow> string option" where
  "elem_attr e name = (case e of None \<Rightarrow> None | Some t \<Rightarrow> map_of (attrs t) name)"

text \<open>The body of the \<open>try\<close> in \<open>save_page_form_pdf\<close>, in the order of the source: year,
  link element, key, window, \<open>href\<close>, fetch, directory, file.\<close>

definition save_row :: "env \<Rightarrow> row \<Rightarrow> world \<Rightarrow> (py_error + unit) \<times> world" where
  "save_row ev r w =
     (case row_current_year r of
        Inl e \<Rightarrow> (Inl e, w)
      | Inr current_year \<Rightarrow>
          (case elem_string (link_elem r) of
             Inl e \<Rightarrow> (Inl e, w)
           | Inr s \<Rightarrow>
               (let fn = before_paren s in
                if MIN_YEAR \<le> current_year \<and> current_year \<le> MAX_YEAR then
                  (case elem_attr (link_elem r) ''href'' of
                     None \<Rightarrow> (Inl KeyError, w)
                   | Some url \<Rightarrow>
                       (case load_page ev url (w\<lparr>requests := requests w @ [FileRequest url]\<rparr>) of
                          (Inl e, w1) \<Rightarrow> (Inl e, w1)
                        | (Inr resp, w1) \<Rightarrow>
                            (case mkdir_error ev fn of
                               Some e \<Rightarrow> (Inl e, w1)
                             | None \<Rightarrow>
                                 (case open_error ev (pdf_filename fn current_year) of
                                    Some e \<Rightarrow> (Inl e, w1\<lparr>dirs := insert fn (dirs w1)\<rparr>)
                                  | None \<Rightarrow>
                                      write_file (pdf_filename fn current_year) resp
                                        (w1\<lparr>dirs := insert fn (dirs w1)\<rparr>)))))
                else (Inr (), w))))"

fun save_page_form_pdf :: "env \<Rightarrow> row list \<Rightarrow> world \<Rightarrow> world" where
  "save_page_form_pdf ev [] w = w"
| "save_page_form_pdf ev (r # rows) w =
     (case save_row ev r w of
        (Inl e, w1) \<Rightarrow> save_page_form_pdf ev rows (w1\<lparr>logged := logged w1 @ [SaveLog e]\<rparr>)
      | (Inr u, w1) \<Rightarrow> save_page_form_pdf ev rows w1)"

section \<open>The pagination loop\<close>

definition listing_url :: "int \<Rightarrow> string" where
  "listing_url pagination =
     ''https://apps.irs.gov/app/picklist/list/priorFormPublication.html?'' @
     ''indexOfFirstRow='' @ str_int pagination @ ''&'' @
     ''sortColumn=sortOrder&'' @
     ''value=&criteria=&'' @
     ''resultsPerPage=200&'' @
     ''isDescending=false''"

text \<open>What \<open>main\<close> appends to \<open>tasks\<close>: the list that \<open>parse_page_forms_json\<close>
  returned, and the \<open>None\<close> that \<open>save_page_form_pdf\<close> returned.\<close>

datatype task = JsonList "string list" | NoneResult

text \<open>\<open>asyncio.gather(*tasks)\<close>: no element of \<open>tasks\<close> is awaitable, so with any
  element it raises \<open>TypeError\<close>; with none it gives the empty list.\<close>

definition gather :: "task list \<Rightarrow> py_error + unit" where
  "gather tasks = (if tasks = [] then Inr () else Inl TypeError)"

text \<open>\<open>BeautifulSoup(page, 'html.parser')\<close> and the search for the table; \<open>None\<close> is not
  markup. The result \<open>None\<close> says that the page has no table.\<close>

definition soup_table :: "env \<Rightarrow> string option \<Rightarrow> py_error + row list option" where
  "soup_table ev page =
     (case page of None \<Rightarrow> Inl TypeError | Some b \<Rightarrow> Inr (find_table ev b))"

datatype step = Return "py_error + unit" "task list" world | Next "task list" world

text \<open>One turn of \<open>while 1\<close>. Nothing in \<open>main\<close> catches an exception: one raised by
  \<open>load_page\<close>, by the parser or by \<open>table.find_all\<close> on \<open>None\<close> ends \<open>main\<close>.\<close>

definition page_step :: "env \<Rightarrow> int \<Rightarrow> task list \<Rightarrow> world \<Rightarrow> step" where
  "page_step ev pagination tasks w =
     (case load_page ev (listing_url pagination)
             (w\<lparr>requests := requests w @ [PageRequest (listing_url pagination)]\<rparr>) of
        (Inl e, w1) \<Rightarrow> Return (Inl e) tasks w1
      | (Inr page, w1) \<Rightarrow>
          (case soup_table ev page of
             Inl e \<Rightarrow> Return (Inl e) tasks w1
           | Inr None \<Rightarrow> Return (Inl AttributeError) tasks w1
           | Inr (Some trs) \<Rightarrow>
               (let rows = drop 1 trs in
                if rows \<noteq> [] then
                  (case parse_page_forms_json ev rows w1 of
                     (js, w2) \<Rightarrow>
                       Next (tasks @ [JsonList js, NoneResult]) (save_page_form_pdf ev rows w2))
                else Return (gather tasks) tasks w1)))"

partial_function (option) main_loop ::
  "env \<Rightarrow> int \<Rightarrow> task list \<Rightarrow> world \<Rightarrow> ((py_error + unit) \<times> task list \<times> world) option" where
  "main_loop ev pagination tasks w =
     (case page_step ev pagination tasks w of
        Return res tasks' w' \<Rightarrow> Some (res, tasks', w')
      | Next tasks' w' \<Rightarrow> main_loop ev (pagination + 200) tasks' w')"

definition world0 :: world where
  "world0 = \<lparr>requests = [], logged = [], dirs = {}, files = Map.empty\<rparr>"

text \<open>\<open>main\<close> from a world in which nothing has happened yet; \<open>None\<close> when the loop
  never ends.\<close>

definition main :: "env \<Rightarrow> ((py_error + unit) \<times> task list \<times> world) option" where
  "main ev = main_loop ev 0 [] world0"

text \<open>The URLs of the listing pages that \<open>main\<close> has requested, in order.\<close>

definition page_requests :: "world \<Rightarrow> string list" where
  "page_requests w = concat (map (\<lambda>q. case q of PageRequest u \<Rightarrow> [u] | FileRequest u \<Rightarrow> []) (requests w))"

section \<open>Vocabulary of the claims\<close>

text \<open>
  A row is valid when its key, its year and its title can all be extracted; \<open>year_of\<close>
  and \<open>title_of\<close> read the year and the title of such a row.
\<close>

definition valid_row :: "row \<Rightarrow> bool" where
  "valid_row r =
     (\<not> isl (row_form_number r) \<and> \<not> isl (row_current_year r) \<and> \<not> isl (row_form_title r))"

definition year_of :: "row \<Rightarrow> int" where
  "year_of r = (case row_current_year r of Inl e \<Rightarrow> 0 | Inr y \<Rightarrow> y)"

definition title_of :: "row \<Rightarrow> string" where
  "title_of r = (case row_form_title r of Inl e \<Rightarrow> [] | Inr t \<Rightarrow> t)"

text \<open>The update of the specification: both bounds are widened by a year.\<close>

definition spec_widen :: "int \<Rightarrow> form \<Rightarrow> form" where
  "spec_widen y f = f\<lparr>min_year := min (min_year f) y, max_year := max (max_year f) y\<rparr>"

text \<open>The body that a fetch gives when it succeeds: a response with a status from 200
  to 299.\<close>

definition fetch_ok :: "env \<Rightarrow> string \<Rightarrow> string option" where
  "fetch_ok ev url =
     (case session_get ev url of
        Inl e \<Rightarrow> None
      | Inr resp \<Rightarrow>
          if 200 \<le> status resp \<and> status resp \<le> 299 then Some (content resp) else None)"

text \<open>The data rows of the listing page at an offset: the rows of its table after the
  header; \<open>None\<close> when the fetch does not succeed or the page has no table.\<close>

definition page_rows :: "env \<Rightarrow> int \<Rightarrow> row list option" where
  "page_rows ev p =
     (case fetch_ok ev (listing_url p) of
        None \<Rightarrow> None
      | Some b \<Rightarrow> (case find_table ev b of None \<Rightarrow> None | Some trs \<Rightarrow> Some (drop 1 trs)))"

text \<open>What one page with data rows adds to \<open>tasks\<close>.\<close>

definition page_tasks :: "env \<Rightarrow> row list \<Rightarrow> task list" where
  "page_tasks ev rows = [JsonList (map (json_dumps ev) (page_forms_of rows)), NoneResult]"

section \<open>Example rows and listings\<close>

definition cell :: "string \<Rightarrow> tag" where
  "cell s = \<lparr>tag_string = Some s, attrs = []\<rparr>"

definition anchor :: "string \<Rightarrow> string \<Rightarrow> tag" where
  "anchor s h = \<lparr>tag_string = Some s, attrs = [(''href'', h)]\<rparr>"

definition row_2019 :: row where
  "row_2019 = \<lparr>link_elem = Some (anchor ''1040 (SP)'' ''f1040-2019.pdf''),
               middle_cell = Some (cell '' Individual Tax Return''),
               end_cell = Some (cell ''2019 '')\<rparr>"

definition row_2020 :: row where
  "row_2020 = \<lparr>link_elem = Some (anchor ''1040'' ''f1040-2020.pdf''),
               middle_cell = Some (cell ''Tax Return''),
               end_cell = Some (cell ''2020'')\<rparr>"

definition row_2017 :: row where
  "row_2017 = \<lparr>link_elem = Some (anchor ''1040'' ''f1040-2017.pdf''),
               middle_cell = Some (cell ''Individual Tax Return''),
               end_cell = Some (cell ''2017'')\<rparr>"

text \<open>A row whose year is not a number, and a row without a title cell.\<close>

definition row_bad_year :: row where
  "row_bad_year = \<lparr>link_elem = Some (anchor ''1040'' ''f1040-2019.pdf''),
                   middle_cell = Some (cell ''Individual Tax Return''),
                   end_cell = Some (cell ''20x9'')\<rparr>"

definition row_no_title :: row where
  "row_no_title = \<lparr>link_elem = Some (anchor ''1040'' ''f1040-2020.pdf''),
                   middle_cell = None,
                   end_cell = Some (cell ''2020'')\<rparr>"

definition header_row :: row where
  "header_row = \<lparr>link_elem = None, middle_cell = None, end_cell = None\<rparr>"

text \<open>\<open>json.dumps\<close> on a record whose strings need no escaping.\<close>

definition quoted :: "string \<Rightarrow> string" where
  "quoted s = CHR 0x22 # s @ [CHR 0x22]"

definition json_plain :: "form \<Rightarrow> string" where
  "json_plain f =
     ''{'' @ quoted ''form_number'' @ '': '' @ quoted (form_number f) @ '', '' @
     quoted ''form_title'' @ '': '' @ quoted (form_title f) @ '', '' @
     quoted ''min_year'' @ '': '' @ str_int (min_year f) @ '', '' @
     quoted ''max_year'' @ '': '' @ str_int (max_year f) @ ''}''"

definition ok_response :: "string \<Rightarrow> py_error + response" where
  "ok_response b = Inr \<lparr>status = 200, content = b\<rparr>"

text \<open>A listing of two pages with one data row each, both of key 1040, and a third page
  whose table has the header only. Every file is served and the disk works.\<close>

definition two_page_env :: env where
  "two_page_env =
     \<lparr>session_get = (\<lambda>u.
         if u = listing_url 0 then ok_response ''page 1''
         else if u = listing_url 200 then ok_response ''page 2''
         else if u = listing_url 400 then ok_response ''page 3''
         else if u = ''f1040-2019.pdf'' then ok_response ''PDF 2019''
         else if u = ''f1040-2020.pdf'' then ok_response ''PDF 2020''
         else Inl ClientError),
       find_table = (\<lambda>b.
         if b = ''page 1'' then Some [header_row, row_2019]
         else if b = ''page 2'' then Some [header_row, row_2020]
         else if b = ''page 3'' then Some [header_row]
         else None),
       mkdir_error = (\<lambda>d. None),
       open_error = (\<lambda>f. None),
       json_dumps = json_plain\<rparr>"

text \<open>The same listing on a disk that refuses to open a file for writing.\<close>

definition no_disk_env :: env where
  "no_disk_env = two_page_env\<lparr>open_error := (\<lambda>f. Some OSError)\<rparr>"

text \<open>A server that answers every request with status 404.\<close>

definition not_found_env :: env where
  "not_found_env = two_page_env\<lparr>session_get := (\<lambda>u. Inr \<lparr>status = 404, content = ''Not Found''\<rparr>)\<rparr>"

text \<open>A server whose pages hold no table.\<close>

definition no_table_env :: env where
  "no_table_env = two_page_env\<lparr>find_table := (\<lambda>b. None)\<rparr>"

definition page_rows_2 :: "nat \<Rightarrow> row list" where
  "page_rows_2 i = (if i = 0 then [row_2019] else [row_2020])"

section \<open>Lemmas on the aggregation\<close>

lemma is_key_in_dict_None: "is_key_in_dict k fs = None \<longleftrightarrow> k \<notin> form_number ` set fs"
  by (induction fs) auto

lemma is_key_in_dict_Some:
  "is_key_in_dict k fs = Some i \<Longrightarrow> i < length fs \<and> form_number (fs ! i) = k"
  by (induction fs arbitrary: i) (auto split: if_splits)

lemma parse_row_keys:
  assumes "parse_row r fs = Inr fs'"
  shows "map form_number fs' = map form_number fs
         \<or> (\<exists>f. fs' = fs @ [f] \<and> form_number f \<notin> form_number ` set fs)"
  using assms
  by (auto simp: parse_row_def is_key_in_dict_None map_update list_update_same_conv
           dest!: is_key_in_dict_Some split: sum.splits option.splits if_splits)

lemma parse_row_distinct:
  assumes "parse_row r fs = Inr fs'" and "distinct (map form_number fs)"
  shows "distinct (map form_number fs')"
  using parse_row_keys [OF assms(1)] assms(2) by auto

lemma parse_loop_distinct:
  "distinct (map form_number fs) \<Longrightarrow> distinct (map form_number (fst (parse_loop rows fs lg)))"
  by (induction rows arbitrary: fs lg) (auto split: sum.splits dest: parse_row_distinct)

lemma parse_row_Inr:
  assumes "parse_row r fs = Inr fs'"
  obtains k y t where "row_form_number r = Inr k" "row_current_year r = Inr y"
      "is_key_in_dict k fs = None" "row_form_title r = Inr t"
      "fs' = fs @ [\<lparr>form_number = k, form_title = t, min_year = y, max_year = y\<rparr>]"
  | k y i where "row_form_number r = Inr k" "row_current_year r = Inr y"
      "is_key_in_dict k fs = Some i" "i < length fs" "form_number (fs ! i) = k"
      "fs' = fs[i := (if y < min_year (fs ! i) then (fs ! i)\<lparr>min_year := y\<rparr>
                      else if max_year (fs ! i) < y then (fs ! i)\<lparr>max_year := y\<rparr>
                      else fs ! i)]"
proof (cases "row_form_number r")
  case (Inl e)
  with assms show ?thesis by (simp add: parse_row_def)
next
  case k: (Inr k)
  show ?thesis
  proof (cases "row_current_year r")
    case (Inl e)
    with assms k show ?thesis by (simp add: parse_row_def)
  next
    case y: (Inr y)
    show ?thesis
    proof (cases "is_key_in_dict k fs")
      case None
      with assms k y obtain t where "row_form_title r = Inr t"
        "fs' = fs @ [\<lparr>form_number = k, form_title = t, min_year = y, max_year = y\<rparr>]"
        by (auto simp: parse_row_def split: sum.splits)
      with k y None that(1) show ?thesis by blast
    next
      case (Some i)
      then have i: "i < length fs" "form_number (fs ! i) = k"
        by (auto dest: is_key_in_dict_Some)
      from assms k y Some
      have "fs' = fs[i := (if y < min_year (fs ! i) then (fs ! i)\<lparr>min_year := y\<rparr>
                           else if max_year (fs ! i) < y then (fs ! i)\<lparr>max_year := y\<rparr>
                           else fs ! i)]"
        by (auto simp: parse_row_def)
      with k y Some i that(2) show ?thesis by blast
    qed
  qed
qed

lemma parse_row_inv:
  assumes "parse_row r fs = Inr fs'" and inv: "\<forall>f\<in>set fs. min_year f \<le> max_year f"
  shows "\<forall>f\<in>set fs'. min_year f \<le> max_year f"
  using assms(1)
proof (cases rule: parse_row_Inr)
  case (1 k y t)
  with inv show ?thesis by simp
next
  case (2 k y i)
  let ?g = "if y < min_year (fs ! i) then (fs ! i)\<lparr>min_year := y\<rparr>
            else if max_year (fs ! i) < y then (fs ! i)\<lparr>max_year := y\<rparr> else fs ! i"
  from 2(4) inv have "min_year (fs ! i) \<le> max_year (fs ! i)" by simp
  then have g: "min_year ?g \<le> max_year ?g" by simp
  have "set fs' \<subseteq> insert ?g (set fs)" unfolding 2(6) by (rule set_update_subset_insert)
  with g inv show ?thesis by blast
qed

lemma parse_loop_inv:
  "\<forall>f\<in>set fs. min_year f \<le> max_year f \<Longrightarrow>
   \<forall>f\<in>set (fst (parse_loop rows fs lg)). min_year f \<le> max_year f"
proof (induction rows arbitrary: fs lg)
  case Nil
  then show ?case by simp
next
  case (Cons r rows)
  show ?case
  proof (cases "parse_row r fs")
    case (Inl e)
    with Cons show ?thesis by simp
  next
    case (Inr fs')
    have "\<forall>f\<in>set fs'. min_year f \<le> max_year f" by (rule parse_row_inv [OF Inr Cons.prems])
    with Cons.IH Inr show ?thesis by simp
  qed
qed

lemma parse_loop_append:
  "parse_loop (xs @ ys) fs lg =
     (case parse_loop xs fs lg of (fs1, lg1) \<Rightarrow> parse_loop ys fs1 lg1)"
  by (induction xs arbitrary: fs lg) (auto split: sum.splits)

text \<open>The forms do not depend on the log, and the log only grows.\<close>

lemma parse_loop_log:
  "parse_loop rows fs lg = (fst (parse_loop rows fs []), lg @ snd (parse_loop rows fs []))"
proof (induction rows arbitrary: fs lg)
  case Nil
  show ?case by simp
next
  case (Cons r rows)
  show ?case
  proof (cases "parse_row r fs")
    case (Inl e)
    show ?thesis
      using Cons [of fs "lg @ [ParseLog e]"] Cons [of fs "[ParseLog e]"] Inl by simp
  next
    case (Inr fs')
    show ?thesis using Cons [of fs' lg] Inr by simp
  qed
qed

lemma page_forms_of_snoc:
  "page_forms_of (xs @ [x]) =
     (case parse_row x (page_forms_of xs) of Inl e \<Rightarrow> page_forms_of xs | Inr fs' \<Rightarrow> fs')"
  by (simp add: page_forms_of_def parse_loop_append split: prod.splits sum.splits)

lemma parse_row_first:
  assumes "row_form_number r = Inr k" "row_current_year r = Inr y" "row_form_title r = Inr t"
  shows "parse_row r [] = Inr [\<lparr>form_number = k, form_title = t, min_year = y, max_year = y\<rparr>]"
  using assms by (simp add: parse_row_def)

lemma parse_row_again:
  assumes "row_form_number r = Inr k" "row_current_year r = Inr y"
      and "form_number f = k" "min_year f \<le> max_year f"
  shows "parse_row r [f] = Inr [spec_widen y f]"
  using assms by (auto simp: parse_row_def spec_widen_def min_def max_def)

lemma same_key_extrema:
  assumes "rows \<noteq> []"
      and "\<forall>r\<in>set rows. row_form_number r = Inr k \<and> valid_row r"
  shows "\<exists>f. page_forms_of rows = [f] \<and> form_number f = k \<and>
             form_title f = title_of (hd rows) \<and>
             min_year f = Min (set (map year_of rows)) \<and>
             max_year f = Max (set (map year_of rows))"
  using assms
proof (induction rows rule: rev_nonempty_induct)
  case (single x)
  then obtain y t where "row_current_year x = Inr y" "row_form_title x = Inr t"
      "row_form_number x = Inr k"
    by (cases "row_current_year x"; cases "row_form_title x") (auto simp: valid_row_def)
  then show ?case
    using page_forms_of_snoc [of "[]" x]
    by (simp add: page_forms_of_def parse_row_first year_of_def title_of_def)
next
  case (snoc x xs)
  then obtain f where f: "page_forms_of xs = [f]" "form_number f = k"
      "form_title f = title_of (hd xs)"
      "min_year f = Min (set (map year_of xs))" "max_year f = Max (set (map year_of xs))"
    by auto
  from snoc.prems obtain y where x: "row_form_number x = Inr k" "row_current_year x = Inr y"
    by (cases "row_current_year x") (auto simp: valid_row_def)
  have fin: "finite (set (map year_of xs))" "set (map year_of xs) \<noteq> {}"
    using snoc.hyps by auto
  have le: "min_year f \<le> max_year f"
  proof -
    obtain a where a: "a \<in> set (map year_of xs)" using snoc.hyps by (cases xs) auto
    have "Min (set (map year_of xs)) \<le> a" using fin(1) a by (rule Min_le)
    also have "a \<le> Max (set (map year_of xs))" using fin(1) a by (rule Max_ge)
    finally show ?thesis unfolding f .
  qed
  have y: "year_of x = y" using x by (simp add: year_of_def)
  have pf: "page_forms_of (xs @ [x]) = [spec_widen y f]"
    using parse_row_again [OF x f(2) le] by (simp add: page_forms_of_snoc f(1))
  have mn: "Min (set (map year_of (xs @ [x]))) = min (min_year f) y"
    using fin by (simp add: y f min.commute)
  have mx: "Max (set (map year_of (xs @ [x]))) = max (max_year f) y"
    using fin by (simp add: y f max.commute)
  have hd: "hd (xs @ [x]) = hd xs" using snoc.hyps by simp
  show ?case unfolding pf mn mx hd by (simp add: spec_widen_def f)
qed

text \<open>A fold step keeps the key and the title of every record and adds records at the
  end only.\<close>

lemma parse_row_prefix:
  assumes "parse_row r fs = Inr fs'"
  shows "\<exists>zs. map (\<lambda>f. (form_number f, form_title f)) fs' =
              map (\<lambda>f. (form_number f, form_title f)) fs @ zs"
  using assms
proof (cases rule: parse_row_Inr)
  case (1 k y t)
  then show ?thesis by simp
next
  case (2 k y i)
  from 2(4) show ?thesis unfolding 2(6)
    by (intro exI [of _ "[]"]) (simp add: map_update list_update_same_conv)
qed

lemma parse_loop_prefix:
  "\<exists>zs. map (\<lambda>f. (form_number f, form_title f)) (fst (parse_loop rows fs lg)) =
        map (\<lambda>f. (form_number f, form_title f)) fs @ zs"
proof (induction rows arbitrary: fs lg)
  case Nil
  show ?case by simp
next
  case (Cons r rows)
  show ?case
  proof (cases "parse_row r fs")
    case (Inl e)
    with Cons [of fs "lg @ [ParseLog e]"] show ?thesis by simp
  next
    case (Inr fs')
    from parse_row_prefix [OF Inr] obtain zs where
      1: "map (\<lambda>f. (form_number f, form_title f)) fs' =
            map (\<lambda>f. (form_number f, form_title f)) fs @ zs" by blast
    from Cons [of fs' lg] obtain zs' where
      2: "map (\<lambda>f. (form_number f, form_title f)) (fst (parse_loop rows fs' lg)) =
            map (\<lambda>f. (form_number f, form_title f)) fs' @ zs'" by blast
    from 1 2 Inr show ?thesis by simp
  qed
qed

lemma page_forms_of_prefix:
  "\<exists>zs. map (\<lambda>f. (form_number f, form_title f)) (page_forms_of (xs @ ys)) =
        map (\<lambda>f. (form_number f, form_title f)) (page_forms_of xs) @ zs"
proof -
  obtain fx lx where x: "parse_loop xs [] [] = (fx, lx)" by (cases "parse_loop xs [] []")
  from parse_loop_prefix [of ys fx lx] x show ?thesis
    by (simp add: page_forms_of_def parse_loop_append)
qed

section \<open>Lemmas on the downloads\<close>

text \<open>In \<open>load_page\<close> the branch that logs is never reached.\<close>

lemma load_page_eq:
  "load_page ev url w =
     (case session_get ev url of
        Inl e \<Rightarrow> (Inl e, w)
      | Inr resp \<Rightarrow> if 200 \<le> status resp \<and> status resp \<le> 299
                    then (Inr (Some (content resp)), w) else (Inl AttributeError, w))"
  by (simp add: load_page_def status_code_def split: sum.splits)

lemma load_page_fetch_ok:
  "fetch_ok ev url = Some b \<Longrightarrow> load_page ev url w = (Inr (Some b), w)"
  by (auto simp: load_page_eq fetch_ok_def split: sum.splits if_splits)

lemma load_page_fetch_failed:
  "fetch_ok ev url = None \<Longrightarrow> \<exists>e. load_page ev url w = (Inl e, w)"
  by (auto simp: load_page_eq fetch_ok_def split: sum.splits if_splits)

lemma save_row_logged:
  "save_row ev r (w\<lparr>logged := l\<rparr>) =
     (fst (save_row ev r w), (snd (save_row ev r w))\<lparr>logged := l\<rparr>)"
  by (simp add: save_row_def load_page_eq write_file_def Let_def split: sum.splits option.splits)

lemma save_row_keeps_log: "logged (snd (save_row ev r w)) = logged w"
  by (simp add: save_row_def load_page_eq write_file_def Let_def split: sum.splits option.splits)

lemma save_row_page_requests: "page_requests (snd (save_row ev r w)) = page_requests w"
  by (simp add: save_row_def load_page_eq write_file_def Let_def page_requests_def
           split: sum.splits option.splits)

text \<open>\<open>save_row\<close> on a row whose year and key can be extracted.\<close>

lemma save_row_window:
  assumes "row_current_year r = Inr y" "row_form_number r = Inr k"
  shows "save_row ev r w =
     (if MIN_YEAR \<le> y \<and> y \<le> MAX_YEAR then
        (case elem_attr (link_elem r) ''href'' of
           None \<Rightarrow> (Inl KeyError, w)
         | Some url \<Rightarrow>
             (case load_page ev url (w\<lparr>requests := requests w @ [FileRequest url]\<rparr>) of
                (Inl e, w1) \<Rightarrow> (Inl e, w1)
              | (Inr resp, w1) \<Rightarrow>
                  (case mkdir_error ev k of
                     Some e \<Rightarrow> (Inl e, w1)
                   | None \<Rightarrow>
                       (case open_error ev (pdf_filename k y) of
                          Some e \<Rightarrow> (Inl e, w1\<lparr>dirs := insert k (dirs w1)\<rparr>)
                        | None \<Rightarrow>
                            write_file (pdf_filename k y) resp
                              (w1\<lparr>dirs := insert k (dirs w1)\<rparr>)))))
      else (Inr (), w))"
  using assms by (auto simp: save_row_def row_form_number_def Let_def split: sum.splits)

lemma save_row_skip:
  assumes "isl (row_current_year r) \<or> isl (row_form_number r)"
  shows "\<exists>e. save_row ev r w = (Inl e, w)"
  using assms by (auto simp: save_row_def row_form_number_def split: sum.splits)

lemma parse_row_skip:
  assumes "isl (row_current_year r) \<or> isl (row_form_number r)"
  shows "\<exists>e. parse_row r fs = Inl e"
  using assms by (auto simp: parse_row_def split: sum.splits)

lemma save_loop_append:
  "save_page_form_pdf ev (xs @ ys) w = save_page_form_pdf ev ys (save_page_form_pdf ev xs w)"
  by (induction xs arbitrary: w) (auto split: prod.splits sum.splits)

lemma save_loop_logged:
  "save_page_form_pdf ev rows (w\<lparr>logged := l\<rparr>) =
     (save_page_form_pdf ev rows (w\<lparr>logged := []\<rparr>))
       \<lparr>logged := l @ logged (save_page_form_pdf ev rows (w\<lparr>logged := []\<rparr>))\<rparr>"
proof (induction rows arbitrary: w l)
  case Nil
  show ?case by simp
next
  case (Cons r rows)
  obtain res w1 where sr: "save_row ev r w = (res, w1)" by (cases "save_row ev r w")
  show ?case
  proof (cases res)
    case (Inl e)
    show ?thesis
      using Cons [where w = w1 and l = "l @ [SaveLog e]"] Cons [where w = w1 and l = "[SaveLog e]"]
      by (simp add: save_row_logged sr Inl)
  next
    case (Inr u)
    show ?thesis
      using Cons [where w = w1 and l = l] Cons [where w = w1 and l = "[]"]
      by (simp add: save_row_logged sr Inr)
  qed
qed

lemma save_loop_skip:
  assumes "isl (row_current_year b) \<or> isl (row_form_number b)"
  shows "\<exists>e l1 l2 W.
           save_page_form_pdf ev (xs @ b # ys) w = W\<lparr>logged := l1 @ [SaveLog e] @ l2\<rparr> \<and>
           save_page_form_pdf ev (xs @ ys) w = W\<lparr>logged := l1 @ l2\<rparr>"
proof -
  let ?Wx = "save_page_form_pdf ev xs w"
  let ?V = "save_page_form_pdf ev ys (?Wx\<lparr>logged := []\<rparr>)"
  from save_row_skip [OF assms] obtain e where e: "save_row ev b ?Wx = (Inl e, ?Wx)" by blast
  have "save_page_form_pdf ev (xs @ b # ys) w
          = save_page_form_pdf ev ys (?Wx\<lparr>logged := logged ?Wx @ [SaveLog e]\<rparr>)"
    by (simp add: save_loop_append e)
  also have "\<dots> = ?V\<lparr>logged := logged ?Wx @ [SaveLog e] @ logged ?V\<rparr>"
    by (subst save_loop_logged) simp
  finally have 1: "save_page_form_pdf ev (xs @ b # ys) w
          = ?V\<lparr>logged := logged ?Wx @ [SaveLog e] @ logged ?V\<rparr>" .
  have "save_page_form_pdf ev (xs @ ys) w
          = save_page_form_pdf ev ys (?Wx\<lparr>logged := logged ?Wx\<rparr>)"
    by (simp add: save_loop_append)
  also have "\<dots> = ?V\<lparr>logged := logged ?Wx @ logged ?V\<rparr>"
    by (subst save_loop_logged) simp
  finally have 2: "save_page_form_pdf ev (xs @ ys) w
          = ?V\<lparr>logged := logged ?Wx @ logged ?V\<rparr>" .
  from 1 2 show ?thesis by blast
qed

lemma parse_loop_skip:
  assumes "isl (row_current_year b) \<or> isl (row_form_number b)"
  shows "\<exists>e l1 l2.
           parse_loop (xs @ b # ys) fs lg = (fst (parse_loop (xs @ ys) fs lg), l1 @ [ParseLog e] @ l2) \<and>
           snd (parse_loop (xs @ ys) fs lg) = l1 @ l2"
proof -
  obtain fx lx where x: "parse_loop xs fs lg = (fx, lx)" by (cases "parse_loop xs fs lg")
  from parse_row_skip [OF assms] obtain e where e: "parse_row b fx = Inl e" by blast
  let ?F = "fst (parse_loop ys fx [])" and ?L = "snd (parse_loop ys fx [])"
  have 1: "parse_loop (xs @ b # ys) fs lg = (?F, lx @ [ParseLog e] @ ?L)"
    using parse_loop_log [of ys fx "lx @ [ParseLog e]"] by (simp add: parse_loop_append x e)
  have 2: "parse_loop (xs @ ys) fs lg = (?F, lx @ ?L)"
    using parse_loop_log [of ys fx lx] by (simp add: parse_loop_append x)
  from 1 2 show ?thesis by auto
qed

lemma save_loop_page_requests:
  "page_requests (save_page_form_pdf ev rows w) = page_requests w"
proof (induction rows arbitrary: w)
  case Nil
  show ?case by simp
next
  case (Cons r rows)
  obtain res w1 where sr: "save_row ev r w = (res, w1)" by (cases "save_row ev r w")
  have "page_requests w1 = page_requests w" using save_row_page_requests [of ev r w] sr by simp
  moreover have "page_requests (w1\<lparr>logged := l\<rparr>) = page_requests w1" for l
    by (simp add: page_requests_def)
  ultimately show ?case using Cons [of w1] Cons [of "w1\<lparr>logged := l\<rparr>" for l]
    by (cases res) (simp_all add: sr)
qed

section \<open>Lemmas on the pagination loop\<close>

lemma parse_page_forms_json_eq:
  "parse_page_forms_json ev rows w =
     (map (json_dumps ev) (page_forms_of rows),
      w\<lparr>logged := logged w @ snd (parse_loop rows [] [])\<rparr>)"
  using parse_loop_log [of rows "[]" "logged w"]
  by (simp add: parse_page_forms_json_def page_forms_of_def)

lemma page_rowsE:
  assumes "page_rows ev p = Some rows"
  obtains b trs where "fetch_ok ev (listing_url p) = Some b"
    "find_table ev b = Some trs" "rows = drop 1 trs"
  using assms by (auto simp: page_rows_def split: option.splits)

lemma page_step_rows:
  assumes "page_rows ev p = Some rows" "rows \<noteq> []"
  shows "\<exists>w'. page_step ev p tasks w = Next (tasks @ page_tasks ev rows) w' \<and>
              page_requests w' = page_requests w @ [listing_url p]"
proof -
  from assms(1) obtain b trs where r: "fetch_ok ev (listing_url p) = Some b"
    "find_table ev b = Some trs" "rows = drop 1 trs"
    by (rule page_rowsE)
  let ?w1 = "w\<lparr>requests := requests w @ [PageRequest (listing_url p)]\<rparr>"
  let ?w2 = "?w1\<lparr>logged := logged ?w1 @ snd (parse_loop rows [] [])\<rparr>"
  have "page_step ev p tasks w = Next (tasks @ page_tasks ev rows) (save_page_form_pdf ev rows ?w2)"
    using r(2,3) assms(2)
    by (simp add: page_step_def load_page_fetch_ok [OF r(1)] soup_table_def
          parse_page_forms_json_eq page_tasks_def Let_def)
  moreover have "page_requests (save_page_form_pdf ev rows ?w2) = page_requests w @ [listing_url p]"
    by (simp add: save_loop_page_requests) (simp add: page_requests_def)
  ultimately show ?thesis by blast
qed

lemma page_step_empty:
  assumes "page_rows ev p = Some []"
  shows "page_step ev p tasks w =
           Return (gather tasks) tasks (w\<lparr>requests := requests w @ [PageRequest (listing_url p)]\<rparr>)"
proof -
  from assms obtain b trs where r: "fetch_ok ev (listing_url p) = Some b"
    "find_table ev b = Some trs" "[] = drop 1 trs"
    by (rule page_rowsE)
  from r(3) have "drop 1 trs = []" by simp
  with r(2) show ?thesis
    by (simp add: page_step_def load_page_fetch_ok [OF r(1)] soup_table_def)
qed

lemma main_loop_pages:
  assumes "\<forall>i<N. page_rows ev (p + 200 * int i) = Some (rows i) \<and> rows i \<noteq> []"
  shows "\<exists>w'. main_loop ev p tasks w =
                 main_loop ev (p + 200 * int N)
                   (tasks @ concat (map (\<lambda>i. page_tasks ev (rows i)) [0..<N])) w' \<and>
              page_requests w' =
                 page_requests w @ map (\<lambda>i. listing_url (p + 200 * int i)) [0..<N]"
  using assms
proof (induction N)
  case 0
  show ?case by (rule exI [of _ w]) simp
next
  case (Suc N)
  let ?T = "tasks @ concat (map (\<lambda>i. page_tasks ev (rows i)) [0..<N])"
  from Suc obtain w' where w': "main_loop ev p tasks w = main_loop ev (p + 200 * int N) ?T w'"
      "page_requests w' = page_requests w @ map (\<lambda>i. listing_url (p + 200 * int i)) [0..<N]"
    by auto
  from Suc.prems have "page_rows ev (p + 200 * int N) = Some (rows N)" "rows N \<noteq> []" by auto
  from page_step_rows [OF this, of ?T w'] obtain w'' where
    w'': "page_step ev (p + 200 * int N) ?T w' = Next (?T @ page_tasks ev (rows N)) w''"
         "page_requests w'' = page_requests w' @ [listing_url (p + 200 * int N)]" by blast
  have "main_loop ev (p + 200 * int N) ?T w' =
          main_loop ev (p + 200 * int N + 200) (?T @ page_tasks ev (rows N)) w''"
    by (subst main_loop.simps) (simp add: w'')
  then have "main_loop ev p tasks w = main_loop ev (p + 200 * int (Suc N))
        (tasks @ concat (map (\<lambda>i. page_tasks ev (rows i)) [0..<Suc N])) w''"
    by (simp add: w' algebra_simps)
  moreover have "page_requests w'' =
        page_requests w @ map (\<lambda>i. listing_url (p + 200 * int i)) [0..<Suc N]"
    by (simp add: w'' w')
  ultimately show ?case by blast
qed

text \<open>A listing of \<open>N\<close> pages with data rows and then a page whose table has none.\<close>

lemma main_pages:
  assumes "\<forall>i<N. page_rows ev (200 * int i) = Some (rows i) \<and> rows i \<noteq> []"
      and "page_rows ev (200 * int N) = Some []"
  shows "\<exists>w. main ev = Some (if N = 0 then Inr () else Inl TypeError,
                             concat (map (\<lambda>i. page_tasks ev (rows i)) [0..<N]), w) \<and>
             page_requests w = map (\<lambda>i. listing_url (200 * int i)) [0..<Suc N]"
proof -
  let ?T = "concat (map (\<lambda>i. page_tasks ev (rows i)) [0..<N])"
  from main_loop_pages [of N ev 0 rows "[]" world0] assms(1)
  obtain w' where w': "main_loop ev 0 [] world0 = main_loop ev (200 * int N) ?T w'"
      "page_requests w' = map (\<lambda>i. listing_url (200 * int i)) [0..<N]"
    by (auto simp: page_requests_def world0_def)
  let ?w = "w'\<lparr>requests := requests w' @ [PageRequest (listing_url (200 * int N))]\<rparr>"
  have "main_loop ev (200 * int N) ?T w' = Some (gather ?T, ?T, ?w)"
    by (subst main_loop.simps) (simp add: page_step_empty [OF assms(2)])
  moreover have "gather ?T = (if N = 0 then Inr () else Inl TypeError)"
    by (cases N) (simp_all add: gather_def page_tasks_def upt_conv_Cons del: upt_Suc)
  moreover have "page_requests ?w = map (\<lambda>i. listing_url (200 * int i)) [0..<Suc N]"
    using w'(2) by (simp add: page_requests_def)
  ultimately show ?thesis unfolding main_def w'(1) by (intro exI [of _ ?w]) simp
qed

lemma page_step_no_rows:
  assumes "page_rows ev p = None"
  shows "\<exists>e. page_step ev p tasks w =
           Return (Inl e) tasks (w\<lparr>requests := requests w @ [PageRequest (listing_url p)]\<rparr>)"
proof (cases "fetch_ok ev (listing_url p)")
  case None
  from load_page_fetch_failed [OF this] obtain e where
    "load_page ev (listing_url p) (w\<lparr>requests := requests w @ [PageRequest (listing_url p)]\<rparr>)
       = (Inl e, w\<lparr>requests := requests w @ [PageRequest (listing_url p)]\<rparr>)" by blast
  then show ?thesis by (simp add: page_step_def)
next
  case (Some b)
  with assms have "find_table ev b = None" by (simp add: page_rows_def split: option.splits)
  then show ?thesis
    by (simp add: page_step_def load_page_fetch_ok [OF Some] soup_table_def)
qed

lemma main_probe:
  assumes "\<forall>i<N. page_rows ev (200 * int i) = Some (rows i) \<and> rows i \<noteq> []"
      and "page_rows ev (200 * int N) = Some [] \<or> page_rows ev (200 * int N) = None"
  shows "\<exists>res tasks w. main ev = Some (res, tasks, w) \<and>
           page_requests w = map (\<lambda>i. listing_url (200 * int i)) [0..<Suc N] \<and>
           (page_rows ev (200 * int N) = Some [] \<longrightarrow>
              res = (if N = 0 then Inr () else Inl TypeError)) \<and>
           (page_rows ev (200 * int N) = None \<longrightarrow> isl res)"
proof (cases "page_rows ev (200 * int N)")
  case (Some rs)
  with assms(2) have e: "page_rows ev (200 * int N) = Some []" by simp
  from main_pages [OF assms(1) e] e show ?thesis by auto
next
  case None
  let ?T = "concat (map (\<lambda>i. page_tasks ev (rows i)) [0..<N])"
  from main_loop_pages [of N ev 0 rows "[]" world0] assms(1)
  obtain w' where w': "main_loop ev 0 [] world0 = main_loop ev (200 * int N) ?T w'"
      "page_requests w' = map (\<lambda>i. listing_url (200 * int i)) [0..<N]"
    by (auto simp: page_requests_def world0_def)
  let ?w = "w'\<lparr>requests := requests w' @ [PageRequest (listing_url (200 * int N))]\<rparr>"
  from page_step_no_rows [OF None, of ?T w'] obtain e where
    "page_step ev (200 * int N) ?T w' = Return (Inl e) ?T ?w" by blast
  then have "main_loop ev (200 * int N) ?T w' = Some (Inl e, ?T, ?w)"
    by (subst main_loop.simps) simp
  moreover have "page_requests ?w = map (\<lambda>i. listing_url (200 * int i)) [0..<Suc N]"
    using w'(2) by (simp add: page_requests_def)
  ultimately show ?thesis unfolding main_def w'(1) using None by simp
qed

section \<open>The example rows and listings, evaluated\<close>

lemmas row_simps =
  row_form_number_def row_current_year_def row_form_title_def elem_string_def elem_attr_def
  cell_def anchor_def py_int_def strip_def is_space_def is_int_space_def digit_val_def

lemmas str_simps = str_int_def str_nat.simps digit_char_def pdf_filename_def listing_url_def

lemma row_2019_fields:
  "row_form_number row_2019 = Inr ''1040''" "row_current_year row_2019 = Inr 2019"
  "row_form_title row_2019 = Inr ''Individual Tax Return''"
  "elem_attr (link_elem row_2019) ''href'' = Some ''f1040-2019.pdf''"
  by (simp_all add: row_2019_def row_simps)

lemma row_2020_fields:
  "row_form_number row_2020 = Inr ''1040''" "row_current_year row_2020 = Inr 2020"
  "row_form_title row_2020 = Inr ''Tax Return''"
  "elem_attr (link_elem row_2020) ''href'' = Some ''f1040-2020.pdf''"
  by (simp_all add: row_2020_def row_simps)

lemma row_2017_fields:
  "row_form_number row_2017 = Inr ''1040''" "row_current_year row_2017 = Inr 2017"
  "row_form_title row_2017 = Inr ''Individual Tax Return''"
  "elem_attr (link_elem row_2017) ''href'' = Some ''f1040-2017.pdf''"
  by (simp_all add: row_2017_def row_simps)

lemma row_bad_year_fields:
  "row_form_number row_bad_year = Inr ''1040''" "row_current_year row_bad_year = Inl ValueError"
  by (simp_all add: row_bad_year_def row_simps)

lemma row_no_title_fields:
  "row_form_number row_no_title = Inr ''1040''" "row_current_year row_no_title = Inr 2020"
  "row_form_title row_no_title = Inl AttributeError"
  "elem_attr (link_elem row_no_title) ''href'' = Some ''f1040-2020.pdf''"
  by (simp_all add: row_no_title_def row_simps)

lemma two_page_env_fetch:
  "fetch_ok two_page_env (listing_url 0) = Some ''page 1''"
  "fetch_ok two_page_env (listing_url 200) = Some ''page 2''"
  "fetch_ok two_page_env (listing_url 400) = Some ''page 3''"
  "fetch_ok two_page_env ''f1040-2019.pdf'' = Some ''PDF 2019''"
  "fetch_ok two_page_env ''f1040-2020.pdf'' = Some ''PDF 2020''"
  by (simp_all add: fetch_ok_def two_page_env_def ok_response_def str_simps)

lemma two_page_env_rows:
  "page_rows two_page_env 0 = Some [row_2019]"
  "page_rows two_page_env 200 = Some [row_2020]"
  "page_rows two_page_env 400 = Some []"
  by (simp_all add: page_rows_def two_page_env_fetch) (simp_all add: two_page_env_def)

section \<open>Claims\<close>

subsection \<open>C1\<close>

text \<open>
  C1 as stated fails. In the listing \<open>two_page_env\<close> the key 1040 is on the first page
  with the year 2019 and on the second with the year 2020. What \<open>main\<close> has collected
  when the loop ends holds two records of that key, one for each page, with the ranges
  2019--2019 and 2020--2020, and no record with the range 2019--2020: \<open>page_forms\<close> is a
  local list of each call of \<open>parse_page_forms_json\<close>.
\<close>

theorem crawl_dedup_counterexample:
  "map_option (fst \<circ> snd) (main two_page_env) =
     Some [JsonList [json_plain \<lparr>form_number = ''1040'', form_title = ''Individual Tax Return'',
                                  min_year = 2019, max_year = 2019\<rparr>],
           NoneResult,
           JsonList [json_plain \<lparr>form_number = ''1040'', form_title = ''Tax Return'',
                                  min_year = 2020, max_year = 2020\<rparr>],
           NoneResult]"
proof -
  have "\<forall>i<Suc (Suc 0). page_rows two_page_env (200 * int i) = Some (page_rows_2 i)
                        \<and> page_rows_2 i \<noteq> []"
    by (simp add: All_less_Suc page_rows_2_def two_page_env_rows)
  moreover have "page_rows two_page_env (200 * int (Suc (Suc 0))) = Some []"
    by (simp add: two_page_env_rows)
  ultimately obtain w where
    "main two_page_env = Some (Inl TypeError,
        concat (map (\<lambda>i. page_tasks two_page_env (page_rows_2 i)) [0..<Suc (Suc 0)]), w)"
    using main_pages [of "Suc (Suc 0)" two_page_env page_rows_2] by auto
  moreover have "page_forms_of [row_2019] =
      [\<lparr>form_number = ''1040'', form_title = ''Individual Tax Return'',
        min_year = 2019, max_year = 2019\<rparr>]"
    by (simp add: page_forms_of_def parse_row_first [OF row_2019_fields(1,2,3)])
  moreover have "page_forms_of [row_2020] =
      [\<lparr>form_number = ''1040'', form_title = ''Tax Return'', min_year = 2020, max_year = 2020\<rparr>]"
    by (simp add: page_forms_of_def parse_row_first [OF row_2020_fields(1,2,3)])
  moreover have "json_dumps two_page_env = json_plain" by (simp add: two_page_env_def)
  ultimately show ?thesis
    by (simp add: page_tasks_def page_rows_2_def)
qed

text \<open>
  C1, amended. Records are deduplicated within each listing page: for every listing of
  \<open>N\<close> pages with data rows followed by a page without, what \<open>main\<close> has collected is,
  page by page, the serialised records built from the rows of that page alone (followed
  by the \<open>None\<close> of the download), and within the records of one page every key occurs
  once. Records of one key on different pages are not merged.
\<close>

theorem crawl_dedup_per_page:
  assumes "\<forall>i<N. page_rows ev (200 * int i) = Some (rows i) \<and> rows i \<noteq> []"
      and "page_rows ev (200 * int N) = Some []"
  shows "(\<exists>res w. main ev =
            Some (res,
                  concat (map (\<lambda>i. [JsonList (map (json_dumps ev) (page_forms_of (rows i))),
                                     NoneResult]) [0..<N]),
                  w))
         \<and> (\<forall>i<N. distinct (map form_number (page_forms_of (rows i))))"
proof -
  from main_pages [OF assms] obtain w where
    "main ev = Some (if N = 0 then Inr () else Inl TypeError,
                     concat (map (\<lambda>i. page_tasks ev (rows i)) [0..<N]), w)" by blast
  then have "\<exists>res w. main ev =
            Some (res,
                  concat (map (\<lambda>i. [JsonList (map (json_dumps ev) (page_forms_of (rows i))),
                                     NoneResult]) [0..<N]),
                  w)"
    by (simp add: page_tasks_def)
  moreover have "distinct (map form_number (page_forms_of rs))" for rs
    unfolding page_forms_of_def by (rule parse_loop_distinct) simp
  ultimately show ?thesis by blast
qed

theorem crawl_dedup_per_page_witness:
  "page_rows two_page_env 0 = Some [row_2019] \<and> [row_2019] \<noteq> []
   \<and> page_rows two_page_env 200 = Some [row_2020] \<and> [row_2020] \<noteq> []
   \<and> page_rows two_page_env 400 = Some []
   \<and> (\<exists>res w. main two_page_env =
            Some (res,
                  [JsonList (map json_plain (page_forms_of [row_2019])), NoneResult,
                   JsonList (map json_plain (page_forms_of [row_2020])), NoneResult],
                  w))
   \<and> distinct (map form_number (page_forms_of [row_2019]))
   \<and> distinct (map form_number (page_forms_of [row_2020]))"
proof -
  have h1: "\<forall>i<Suc (Suc 0). page_rows two_page_env (200 * int i) = Some (page_rows_2 i)
                        \<and> page_rows_2 i \<noteq> []"
    by (simp add: All_less_Suc page_rows_2_def two_page_env_rows)
  have h2: "page_rows two_page_env (200 * int (Suc (Suc 0))) = Some []"
    by (simp add: two_page_env_rows)
  have d: "json_dumps two_page_env = json_plain" by (simp add: two_page_env_def)
  from crawl_dedup_per_page [OF h1 h2] show ?thesis
    by (simp add: All_less_Suc page_rows_2_def d two_page_env_rows)
qed

subsection \<open>C2\<close>

text \<open>
  C2. The fold computes exact extrema and is order-insensitive: for every non-empty
  sequence of valid rows with the same key, one call builds one record, whose
  \<open>min_year\<close> is the minimum and whose \<open>max_year\<close> is the maximum of the years of the
  rows; the rows in any other order give the same bounds; the first row inserts a record
  with both bounds equal to its year, and every later row widens \<open>min_year\<close> to the
  minimum and \<open>max_year\<close> to the maximum of the bound and its year.
\<close>

theorem fold_same_key_extrema:
  assumes "rows \<noteq> []"
      and "\<forall>r\<in>set rows. row_form_number r = Inr k \<and> valid_row r"
  shows "(\<exists>f. page_forms_of rows = [f] \<and> form_number f = k \<and>
              min_year f = Min (set (map year_of rows)) \<and>
              max_year f = Max (set (map year_of rows)))
         \<and> (\<forall>rows'. mset rows' = mset rows \<longrightarrow>
               map min_year (page_forms_of rows') = map min_year (page_forms_of rows) \<and>
               map max_year (page_forms_of rows') = map max_year (page_forms_of rows))
         \<and> page_forms_of (take 1 rows) =
               [\<lparr>form_number = k, form_title = title_of (hd rows),
                 min_year = year_of (hd rows), max_year = year_of (hd rows)\<rparr>]
         \<and> (\<forall>n. 0 < n \<and> n < length rows \<longrightarrow>
               page_forms_of (take (Suc n) rows) =
                 map (spec_widen (year_of (rows ! n))) (page_forms_of (take n rows)))"
proof (intro conjI allI impI)
  from same_key_extrema [OF assms]
  show "\<exists>f. page_forms_of rows = [f] \<and> form_number f = k \<and>
            min_year f = Min (set (map year_of rows)) \<and>
            max_year f = Max (set (map year_of rows))" by blast
next
  fix rows' assume p: "mset rows' = mset rows"
  then have s: "set rows' = set rows" by (rule mset_eq_setD)
  with assms have "rows' \<noteq> []" "\<forall>r\<in>set rows'. row_form_number r = Inr k \<and> valid_row r"
    by auto
  from same_key_extrema [OF this] same_key_extrema [OF assms] s
  show "map min_year (page_forms_of rows') = map min_year (page_forms_of rows)"
   and "map max_year (page_forms_of rows') = map max_year (page_forms_of rows)"
    by auto
next
  from assms(1) have t: "take 1 rows = [hd rows]" by (cases rows) simp_all
  from assms have "[hd rows] \<noteq> []" "\<forall>r\<in>set [hd rows]. row_form_number r = Inr k \<and> valid_row r"
    by (cases rows; simp)+
  from same_key_extrema [OF this]
  show "page_forms_of (take 1 rows) =
          [\<lparr>form_number = k, form_title = title_of (hd rows),
            min_year = year_of (hd rows), max_year = year_of (hd rows)\<rparr>]"
    unfolding t by auto
next
  fix n assume n: "0 < n \<and> n < length rows"
  let ?xs = "take n rows" and ?x = "rows ! n"
  from n have t: "take (Suc n) rows = ?xs @ [?x]" by (simp add: take_Suc_conv_app_nth)
  from n assms(1) have ne: "?xs \<noteq> []" by simp
  have "set ?xs \<subseteq> set rows" by (rule set_take_subset)
  with assms(2) have "\<forall>r\<in>set ?xs. row_form_number r = Inr k \<and> valid_row r" by blast
  from same_key_extrema [OF ne this] obtain f where
    f: "page_forms_of ?xs = [f]" "form_number f = k" by blast
  have "\<forall>g\<in>set (page_forms_of ?xs). min_year g \<le> max_year g"
    unfolding page_forms_of_def by (rule parse_loop_inv) simp
  with f have le: "min_year f \<le> max_year f" by simp
  from n assms(2) have "row_form_number ?x = Inr k" "valid_row ?x" by simp_all
  then obtain y where x: "row_form_number ?x = Inr k" "row_current_year ?x = Inr y"
    by (cases "row_current_year ?x") (auto simp: valid_row_def)
  then have y: "year_of ?x = y" by (simp add: year_of_def)
  show "page_forms_of (take (Suc n) rows) = map (spec_widen (year_of ?x)) (page_forms_of ?xs)"
    unfolding t using parse_row_again [OF x f(2) le]
    by (simp add: page_forms_of_snoc f(1) y)
qed

theorem fold_same_key_extrema_witness:
  "[row_2020, row_2017, row_2019] \<noteq> []
   \<and> list_all (\<lambda>r. row_form_number r = Inr ''1040'' \<and> valid_row r)
         [row_2020, row_2017, row_2019]
   \<and> (\<exists>f. page_forms_of [row_2020, row_2017, row_2019] = [f] \<and> form_number f = ''1040'' \<and>
           min_year f = 2017 \<and> max_year f = 2020)"
proof -
  have h1: "[row_2020, row_2017, row_2019] \<noteq> []" by simp
  have h2: "\<forall>r\<in>set [row_2020, row_2017, row_2019]. row_form_number r = Inr ''1040'' \<and> valid_row r"
    by (simp add: valid_row_def row_2019_fields row_2020_fields row_2017_fields)
  have y: "map year_of [row_2020, row_2017, row_2019] = [2020, 2017, 2019]"
    by (simp add: year_of_def row_2019_fields row_2020_fields row_2017_fields)
  from fold_same_key_extrema [OF h1 h2] h1 h2 show ?thesis
    unfolding y by (simp add: list_all_iff)
qed

subsection \<open>C3\<close>

text \<open>
  C3. Pagination ends with one probe request past the last page: for every listing of
  \<open>N\<close> pages with data rows followed by a page without (its table has no data row;
  or, beyond the claim, it has no table or its fetch fails), \<open>main\<close> returns, and the
  requests for listing pages that it has sent are the \<open>N + 1\<close> requests of the offsets
  0, 200, 400, ..., \<open>200 * N\<close>, in this order: the cursor advances by 200 after each page
  with data rows. What \<open>main\<close> returns after the loop is, for an empty table, the
  result of \<open>asyncio.gather\<close> (a \<open>TypeError\<close> when \<open>N > 0\<close>), and an exception in the
  two other cases.
\<close>

theorem pagination_probe:
  assumes "\<forall>i<N. page_rows ev (200 * int i) = Some (rows i) \<and> rows i \<noteq> []"
      and "page_rows ev (200 * int N) = Some [] \<or> page_rows ev (200 * int N) = None"
  shows "\<exists>res tasks w. main ev = Some (res, tasks, w) \<and>
           page_requests w = map (\<lambda>i. listing_url (200 * int i)) [0..<N + 1] \<and>
           length (page_requests w) = N + 1 \<and>
           (page_rows ev (200 * int N) = Some [] \<longrightarrow>
              res = (if N = 0 then Inr () else Inl TypeError)) \<and>
           (page_rows ev (200 * int N) = None \<longrightarrow> isl res)"
proof -
  from main_probe [OF assms] obtain res tasks w where
    w: "main ev = Some (res, tasks, w)"
       "page_requests w = map (\<lambda>i. listing_url (200 * int i)) [0..<Suc N]"
       "page_rows ev (200 * int N) = Some [] \<longrightarrow> res = (if N = 0 then Inr () else Inl TypeError)"
       "page_rows ev (200 * int N) = None \<longrightarrow> isl res"
    by (elim exE conjE)
  from w(2) have "length (page_requests w) = N + 1" by simp
  with w show ?thesis by (intro exI [of _ res] exI [of _ tasks] exI [of _ w]) simp
qed

theorem pagination_probe_witness:
  "page_rows two_page_env 0 = Some [row_2019] \<and> [row_2019] \<noteq> []
   \<and> page_rows two_page_env 200 = Some [row_2020] \<and> [row_2020] \<noteq> []
   \<and> page_rows two_page_env 400 = Some []
   \<and> (\<exists>tasks w. main two_page_env = Some (Inl TypeError, tasks, w) \<and>
                 page_requests w = [listing_url 0, listing_url 200, listing_url 400])"
proof -
  have h1: "\<forall>i<Suc (Suc 0). page_rows two_page_env (200 * int i) = Some (page_rows_2 i)
                        \<and> page_rows_2 i \<noteq> []"
    by (simp add: All_less_Suc page_rows_2_def two_page_env_rows)
  have h2: "page_rows two_page_env (200 * int (Suc (Suc 0))) = Some []
            \<or> page_rows two_page_env (200 * int (Suc (Suc 0))) = None"
    by (simp add: two_page_env_rows)
  from pagination_probe [OF h1 h2] show ?thesis
    by (auto simp: upt_conv_Cons two_page_env_rows simp del: upt_Suc)
qed

subsection \<open>C4\<close>

text \<open>
  C4 holds for the statuses from 200 to 299 and fails, against the visible intent of
  the code, for every other status: \<open>load_page\<close> reads \<open>resp.status\<close> in its test and
  \<open>resp.status_code\<close> in the message of the log line. For a response of status 404
  nothing is logged and \<open>AttributeError\<close> reaches the caller; in \<open>main\<close>, which does not
  catch it, it ends the crawl.
\<close>

theorem load_page_status_404:
  "load_page not_found_env (listing_url 0) world0 = (Inl AttributeError, world0)
   \<and> map_option fst (main not_found_env) = Some (Inl AttributeError)"
proof -
  have 1: "load_page not_found_env u w = (Inl AttributeError, w)" for u w
    by (simp add: load_page_eq not_found_env_def)
  have "page_step not_found_env 0 [] world0 =
          Return (Inl AttributeError) [] (world0\<lparr>requests := requests world0 @ [PageRequest (listing_url 0)]\<rparr>)"
    by (simp add: page_step_def 1)
  then have "map_option fst (main not_found_env) = Some (Inl AttributeError)"
    unfolding main_def by (subst main_loop.simps) simp
  with 1 show ?thesis by simp
qed

subsection \<open>C5\<close>

text \<open>
  C5 as stated fails. On a disk that refuses to open the file, the row \<open>row_2019\<close> has
  its year inside the window and its fetch succeeds, and no file is written: the
  exception of \<open>open\<close> is caught and logged as every other one.
\<close>

theorem artifact_file_counterexample:
  "row_current_year row_2019 = Inr 2019 \<and> MIN_YEAR \<le> 2019 \<and> 2019 \<le> MAX_YEAR
   \<and> fetch_ok no_disk_env ''f1040-2019.pdf'' = Some ''PDF 2019''
   \<and> files (snd (save_row no_disk_env row_2019 world0)) = files world0
   \<and> fst (save_row no_disk_env row_2019 world0) = Inl OSError"
proof -
  have f: "fetch_ok no_disk_env ''f1040-2019.pdf'' = Some ''PDF 2019''"
    using two_page_env_fetch(4) by (simp add: fetch_ok_def no_disk_env_def)
  have io: "mkdir_error no_disk_env d = None" "open_error no_disk_env p = Some OSError" for d p
    by (simp_all add: no_disk_env_def two_page_env_def)
  have w: "MIN_YEAR \<le> 2019" "2019 \<le> MAX_YEAR" by (simp_all add: MIN_YEAR_def MAX_YEAR_def)
  have "save_row no_disk_env row_2019 world0 =
          (Inl OSError, world0\<lparr>requests := requests world0 @ [FileRequest ''f1040-2019.pdf''],
                                dirs := insert ''1040'' (dirs world0)\<rparr>)"
    by (simp add: save_row_window [OF row_2019_fields(2,1)] w row_2019_fields(4)
          load_page_fetch_ok [OF f] io)
  then show ?thesis by (simp add: row_2019_fields f w)
qed

text \<open>
  C5, amended. For a row whose year and key can be extracted, a file is written if and
  only if the year lies within \<open>[MIN_YEAR, MAX_YEAR]\<close>, the fetch of the link of the row
  succeeds, and creating the directory and opening the file do not fail. Then exactly
  the file \<open>{key}/{key}_{year}.pdf\<close> is written, with the body of the response; in
  every other case, and for a row whose year or key cannot be extracted, the files stay
  as they are.
\<close>

theorem artifact_file_iff:
  "(row_current_year r = Inr y \<and> row_form_number r = Inr k \<and>
    MIN_YEAR \<le> y \<and> y \<le> MAX_YEAR \<and>
    elem_attr (link_elem r) ''href'' = Some url \<and> fetch_ok ev url = Some b \<and>
    mkdir_error ev k = None \<and> open_error ev (pdf_filename k y) = None
      \<longrightarrow> files (snd (save_row ev r w)) = (files w)(pdf_filename k y \<mapsto> b))
   \<and> (row_current_year r = Inr y \<and> row_form_number r = Inr k \<and>
      \<not> (MIN_YEAR \<le> y \<and> y \<le> MAX_YEAR \<and>
         (\<exists>url b. elem_attr (link_elem r) ''href'' = Some url \<and> fetch_ok ev url = Some b) \<and>
         mkdir_error ev k = None \<and> open_error ev (pdf_filename k y) = None)
      \<longrightarrow> files (snd (save_row ev r w)) = files w)
   \<and> (isl (row_current_year r) \<or> isl (row_form_number r)
      \<longrightarrow> files (snd (save_row ev r w)) = files w)"
proof (intro conjI impI)
  assume a: "row_current_year r = Inr y \<and> row_form_number r = Inr k \<and>
    MIN_YEAR \<le> y \<and> y \<le> MAX_YEAR \<and>
    elem_attr (link_elem r) ''href'' = Some url \<and> fetch_ok ev url = Some b \<and>
    mkdir_error ev k = None \<and> open_error ev (pdf_filename k y) = None"
  then have f: "fetch_ok ev url = Some b" and yk: "row_current_year r = Inr y"
    "row_form_number r = Inr k" by simp_all
  from a show "files (snd (save_row ev r w)) = (files w)(pdf_filename k y \<mapsto> b)"
    by (simp add: save_row_window [OF yk] load_page_fetch_ok [OF f] write_file_def)
next
  assume a: "row_current_year r = Inr y \<and> row_form_number r = Inr k \<and>
      \<not> (MIN_YEAR \<le> y \<and> y \<le> MAX_YEAR \<and>
         (\<exists>url b. elem_attr (link_elem r) ''href'' = Some url \<and> fetch_ok ev url = Some b) \<and>
         mkdir_error ev k = None \<and> open_error ev (pdf_filename k y) = None)"
  then have yk: "row_current_year r = Inr y" "row_form_number r = Inr k" by simp_all
  show "files (snd (save_row ev r w)) = files w"
  proof (cases "MIN_YEAR \<le> y \<and> y \<le> MAX_YEAR")
    case False
    then show ?thesis by (auto simp: save_row_window [OF yk])
  next
    case win: True
    show ?thesis
    proof (cases "elem_attr (link_elem r) ''href''")
      case None
      with win show ?thesis by (simp add: save_row_window [OF yk])
    next
      case href: (Some u)
      show ?thesis
      proof (cases "fetch_ok ev u")
        case None
        from load_page_fetch_failed [OF this] obtain e where
          "load_page ev u (w\<lparr>requests := requests w @ [FileRequest u]\<rparr>)
             = (Inl e, w\<lparr>requests := requests w @ [FileRequest u]\<rparr>)" by blast
        with win href show ?thesis by (simp add: save_row_window [OF yk])
      next
        case (Some b')
        with a win href
        have "mkdir_error ev k \<noteq> None \<or> open_error ev (pdf_filename k y) \<noteq> None" by auto
        with win href show ?thesis
          by (auto simp: save_row_window [OF yk] load_page_fetch_ok [OF Some]
                   split: option.splits)
      qed
    qed
  qed
next
  assume "isl (row_current_year r) \<or> isl (row_form_number r)"
  from save_row_skip [OF this, of ev w] show "files (snd (save_row ev r w)) = files w" by auto
qed

theorem artifact_file_iff_witness:
  "row_current_year row_2019 = Inr 2019 \<and> row_form_number row_2019 = Inr ''1040'' \<and>
   MIN_YEAR \<le> 2019 \<and> 2019 \<le> MAX_YEAR \<and>
   elem_attr (link_elem row_2019) ''href'' = Some ''f1040-2019.pdf'' \<and>
   fetch_ok two_page_env ''f1040-2019.pdf'' = Some ''PDF 2019'' \<and>
   mkdir_error two_page_env ''1040'' = None \<and>
   open_error two_page_env ''1040/1040_2019.pdf'' = None \<and>
   files (snd (save_row two_page_env row_2019 world0)) = [''1040/1040_2019.pdf'' \<mapsto> ''PDF 2019''] \<and>
   row_current_year row_2017 = Inr 2017 \<and> row_form_number row_2017 = Inr ''1040'' \<and>
   \<not> MIN_YEAR \<le> 2017 \<and>
   files (snd (save_row two_page_env row_2017 world0)) = Map.empty \<and>
   isl (row_current_year row_bad_year) \<and>
   files (snd (save_row two_page_env row_bad_year world0)) = Map.empty"
proof -
  have p: "pdf_filename ''1040'' 2019 = ''1040/1040_2019.pdf''" by (simp add: str_simps)
  have io: "mkdir_error two_page_env ''1040'' = None"
    "open_error two_page_env ''1040/1040_2019.pdf'' = None"
    by (simp_all add: two_page_env_def)
  have w: "MIN_YEAR \<le> 2019" "2019 \<le> MAX_YEAR" "\<not> MIN_YEAR \<le> 2017"
    by (simp_all add: MIN_YEAR_def MAX_YEAR_def)
  from artifact_file_iff [of row_2019 2019 "''1040''" "''f1040-2019.pdf''" two_page_env "''PDF 2019''" world0]
       artifact_file_iff [of row_2017 2017 "''1040''" _ two_page_env _ world0]
       artifact_file_iff [of row_bad_year _ _ _ two_page_env _ world0]
  show ?thesis
    by (simp add: row_2019_fields row_2017_fields row_bad_year_fields two_page_env_fetch p io w world0_def)
qed

subsection \<open>C6\<close>

text \<open>
  C6. After every fold operation (after any number \<open>n\<close> of the rows of a call), every
  record has \<open>min_year \<le> max_year\<close>; a fold step on records with this property gives
  records with this property; and the first occurrence of a key appends a record with
  both bounds equal to the year of the row.
\<close>

theorem min_le_max_invariant:
  "(\<forall>f\<in>set (page_forms_of (take n rows)). min_year f \<le> max_year f)
   \<and> ((\<forall>f\<in>set fs. min_year f \<le> max_year f) \<and> parse_row r fs = Inr fs'
        \<longrightarrow> (\<forall>f\<in>set fs'. min_year f \<le> max_year f))
   \<and> (row_form_number r = Inr k \<and> is_key_in_dict k fs = None \<and> parse_row r fs = Inr fs'
        \<longrightarrow> (\<exists>f. fs' = fs @ [f] \<and> form_number f = k \<and>
                 row_current_year r = Inr (min_year f) \<and> min_year f = max_year f))"
proof (intro conjI impI)
  show "\<forall>f\<in>set (page_forms_of (take n rows)). min_year f \<le> max_year f"
    unfolding page_forms_of_def by (rule parse_loop_inv) simp
next
  assume "(\<forall>f\<in>set fs. min_year f \<le> max_year f) \<and> parse_row r fs = Inr fs'"
  then show "\<forall>f\<in>set fs'. min_year f \<le> max_year f" using parse_row_inv by blast
next
  assume a: "row_form_number r = Inr k \<and> is_key_in_dict k fs = None \<and> parse_row r fs = Inr fs'"
  then have "parse_row r fs = Inr fs'" by simp
  then show "\<exists>f. fs' = fs @ [f] \<and> form_number f = k \<and>
                 row_current_year r = Inr (min_year f) \<and> min_year f = max_year f"
  proof (cases rule: parse_row_Inr)
    case (1 k' y t)
    with a show ?thesis by simp
  next
    case (2 k' y i)
    with a show ?thesis by simp
  qed
qed

theorem min_le_max_invariant_witness:
  "list_all (\<lambda>f. min_year f \<le> max_year f) (page_forms_of (take 2 [row_2019, row_2017, row_2020]))
   \<and> page_forms_of (take 2 [row_2019, row_2017, row_2020]) =
       [\<lparr>form_number = ''1040'', form_title = ''Individual Tax Return'',
         min_year = 2017, max_year = 2019\<rparr>]
   \<and> list_all (\<lambda>f. min_year f \<le> max_year f) (page_forms_of [row_2019])
   \<and> parse_row row_2017 (page_forms_of [row_2019]) = Inr (page_forms_of [row_2019, row_2017])
   \<and> list_all (\<lambda>f. min_year f \<le> max_year f) (page_forms_of [row_2019, row_2017])
   \<and> row_form_number row_2019 = Inr ''1040'' \<and> is_key_in_dict ''1040'' [] = None
   \<and> parse_row row_2019 [] = Inr (page_forms_of [row_2019])
   \<and> (\<exists>f. page_forms_of [row_2019] = [] @ [f] \<and> form_number f = ''1040'' \<and>
           row_current_year row_2019 = Inr (min_year f) \<and> min_year f = max_year f)"
proof -
  have a: "page_forms_of [row_2019] =
      [\<lparr>form_number = ''1040'', form_title = ''Individual Tax Return'',
        min_year = 2019, max_year = 2019\<rparr>]"
    by (simp add: page_forms_of_def parse_row_def row_2019_fields)
  have b: "page_forms_of [row_2019, row_2017] =
      [\<lparr>form_number = ''1040'', form_title = ''Individual Tax Return'',
        min_year = 2017, max_year = 2019\<rparr>]"
    by (simp add: page_forms_of_def parse_row_def row_2019_fields row_2017_fields)
  have c: "parse_row row_2017 (page_forms_of [row_2019]) = Inr (page_forms_of [row_2019, row_2017])"
    unfolding a b by (simp add: parse_row_def row_2017_fields)
  have d: "parse_row row_2019 [] = Inr (page_forms_of [row_2019])"
    unfolding a by (simp add: parse_row_def row_2019_fields)
  from min_le_max_invariant [of 2 "[row_2019, row_2017, row_2020]" "page_forms_of [row_2019]"
         row_2017 "page_forms_of [row_2019, row_2017]"]
       min_le_max_invariant [of 0 "[]" "[]" row_2019 "page_forms_of [row_2019]" "''1040''"]
       c d
  show ?thesis by (simp add: a b row_2019_fields)
qed

subsection \<open>C7\<close>

text \<open>
  C7 fails on the code, against the note at the end of the source file, which says
  that a page without the table means that the last page has been reached. When the
  first page is fetched and holds no table, \<open>table\<close> is \<open>None\<close>, \<open>table.find_all\<close>
  raises \<open>AttributeError\<close>, and \<open>main\<close> ends with this exception after one request.
\<close>

theorem table_absent_raises:
  "main no_table_env =
     Some (Inl AttributeError, [], world0\<lparr>requests := [PageRequest (listing_url 0)]\<rparr>)"
proof -
  have f: "fetch_ok no_table_env (listing_url 0) = Some ''page 1''"
    using two_page_env_fetch(1) by (simp add: fetch_ok_def no_table_env_def)
  have "page_step no_table_env 0 [] world0 =
          Return (Inl AttributeError) []
            (world0\<lparr>requests := requests world0 @ [PageRequest (listing_url 0)]\<rparr>)"
    by (simp add: page_step_def load_page_fetch_ok [OF f] soup_table_def)
       (simp add: no_table_env_def)
  then show ?thesis
    unfolding main_def by (subst main_loop.simps) (simp add: world0_def)
qed

subsection \<open>C8\<close>

text \<open>
  C8 as stated fails for a row whose missing cell is the title cell. The download never
  reads the title, and the aggregation reads it only for a new key: after \<open>row_2019\<close>,
  the row \<open>row_no_title\<close> widens the record of its key to 2020 and its file is written.
\<close>

theorem row_isolation_counterexample:
  "row_form_title row_no_title = Inl AttributeError
   \<and> page_forms_of [row_2019, row_no_title] =
       [\<lparr>form_number = ''1040'', form_title = ''Individual Tax Return'',
         min_year = 2019, max_year = 2020\<rparr>]
   \<and> page_forms_of [row_2019] =
       [\<lparr>form_number = ''1040'', form_title = ''Individual Tax Return'',
         min_year = 2019, max_year = 2019\<rparr>]
   \<and> files (save_page_form_pdf two_page_env [row_2019, row_no_title] world0)
        ''1040/1040_2020.pdf'' = Some ''PDF 2020''
   \<and> logged (save_page_form_pdf two_page_env [row_2019, row_no_title] world0) = []"
proof -
  have a: "page_forms_of [row_2019] =
      [\<lparr>form_number = ''1040'', form_title = ''Individual Tax Return'',
        min_year = 2019, max_year = 2019\<rparr>]"
    by (simp add: page_forms_of_def parse_row_def row_2019_fields)
  have b: "page_forms_of [row_2019, row_no_title] =
      [\<lparr>form_number = ''1040'', form_title = ''Individual Tax Return'',
        min_year = 2019, max_year = 2020\<rparr>]"
    by (simp add: page_forms_of_def parse_row_def row_2019_fields row_no_title_fields)
  have io: "mkdir_error two_page_env d = None" "open_error two_page_env p = None" for d p
    by (simp_all add: two_page_env_def)
  have w: "MIN_YEAR \<le> 2019" "2019 \<le> MAX_YEAR" "MIN_YEAR \<le> 2020" "2020 \<le> MAX_YEAR"
    by (simp_all add: MIN_YEAR_def MAX_YEAR_def)
  have p: "pdf_filename ''1040'' 2020 = ''1040/1040_2020.pdf''" by (simp add: str_simps)
  have s1: "save_row two_page_env row_2019 v =
      (Inr (), v\<lparr>requests := requests v @ [FileRequest ''f1040-2019.pdf''],
                 dirs := insert ''1040'' (dirs v),
                 files := (files v)(pdf_filename ''1040'' 2019 \<mapsto> ''PDF 2019'')\<rparr>)" for v
    by (simp add: save_row_window [OF row_2019_fields(2,1)] w row_2019_fields(4)
          load_page_fetch_ok [OF two_page_env_fetch(4)] io write_file_def)
  have s2: "save_row two_page_env row_no_title v =
      (Inr (), v\<lparr>requests := requests v @ [FileRequest ''f1040-2020.pdf''],
                 dirs := insert ''1040'' (dirs v),
                 files := (files v)(pdf_filename ''1040'' 2020 \<mapsto> ''PDF 2020'')\<rparr>)" for v
    by (simp add: save_row_window [OF row_no_title_fields(2,1)] w row_no_title_fields(4)
          load_page_fetch_ok [OF two_page_env_fetch(5)] io write_file_def)
  have c: "files (save_page_form_pdf two_page_env [row_2019, row_no_title] world0)
             ''1040/1040_2020.pdf'' = Some ''PDF 2020''"
    by (simp add: s1 s2 p)
  have d: "logged (save_page_form_pdf two_page_env [row_2019, row_no_title] world0) = []"
    by (simp add: s1 s2 world0_def)
  from a b c d show ?thesis by (simp add: row_no_title_fields)
qed

text \<open>
  C8, amended. For every batch with a row whose year or key cannot be extracted (year
  cell missing or not a number, link element missing or without text), that row is
  skipped with one logged error in the aggregation and one in the download: the records
  built, the requests sent and the files and directories written are those of the batch
  without the row, and each log is the log of the batch without the row with one entry
  added.
\<close>

theorem row_isolation:
  assumes "isl (row_current_year b) \<or> isl (row_form_number b)"
  shows "page_forms_of (xs @ b # ys) = page_forms_of (xs @ ys)
         \<and> (\<exists>e l1 l2. snd (parse_page_forms_json ev (xs @ b # ys) w)
                         = (snd (parse_page_forms_json ev (xs @ ys) w))
                             \<lparr>logged := l1 @ [ParseLog e] @ l2\<rparr> \<and>
                       logged (snd (parse_page_forms_json ev (xs @ ys) w)) = l1 @ l2)
         \<and> fst (parse_page_forms_json ev (xs @ b # ys) w)
             = fst (parse_page_forms_json ev (xs @ ys) w)
         \<and> (\<exists>e l1 l2. save_page_form_pdf ev (xs @ b # ys) w
                         = (save_page_form_pdf ev (xs @ ys) w)\<lparr>logged := l1 @ [SaveLog e] @ l2\<rparr> \<and>
                       logged (save_page_form_pdf ev (xs @ ys) w) = l1 @ l2)"
proof -
  from parse_loop_skip [OF assms, of xs ys "[]" "logged w"] obtain e l1 l2 where
    p: "parse_loop (xs @ b # ys) [] (logged w) =
          (fst (parse_loop (xs @ ys) [] (logged w)), l1 @ [ParseLog e] @ l2)"
       "snd (parse_loop (xs @ ys) [] (logged w)) = l1 @ l2" by blast
  have f: "fst (parse_loop rs [] (logged w)) = page_forms_of rs" for rs
    using parse_loop_log [of rs "[]" "logged w"] by (simp add: page_forms_of_def)
  from p(1) f have 1: "page_forms_of (xs @ b # ys) = page_forms_of (xs @ ys)"
    by (metis fst_conv)
  have 2: "\<exists>e l1 l2. snd (parse_page_forms_json ev (xs @ b # ys) w)
                         = (snd (parse_page_forms_json ev (xs @ ys) w))
                             \<lparr>logged := l1 @ [ParseLog e] @ l2\<rparr> \<and>
                       logged (snd (parse_page_forms_json ev (xs @ ys) w)) = l1 @ l2"
    by (rule exI [of _ e], rule exI [of _ l1], rule exI [of _ l2])
       (use p in \<open>auto simp: parse_page_forms_json_def split: prod.splits\<close>)
  have 3: "fst (parse_page_forms_json ev (xs @ b # ys) w)
             = fst (parse_page_forms_json ev (xs @ ys) w)"
    by (simp add: parse_page_forms_json_eq 1)
  from save_loop_skip [OF assms, of ev xs ys w] obtain e' k1 k2 W where
    s: "save_page_form_pdf ev (xs @ b # ys) w = W\<lparr>logged := k1 @ [SaveLog e'] @ k2\<rparr>"
       "save_page_form_pdf ev (xs @ ys) w = W\<lparr>logged := k1 @ k2\<rparr>" by blast
  have 4: "\<exists>e l1 l2. save_page_form_pdf ev (xs @ b # ys) w
                         = (save_page_form_pdf ev (xs @ ys) w)\<lparr>logged := l1 @ [SaveLog e] @ l2\<rparr> \<and>
                       logged (save_page_form_pdf ev (xs @ ys) w) = l1 @ l2"
    by (rule exI [of _ e'], rule exI [of _ k1], rule exI [of _ k2]) (simp add: s)
  from 1 2 3 4 show ?thesis by blast
qed

theorem row_isolation_witness:
  "(isl (row_current_year row_bad_year) \<or> isl (row_form_number row_bad_year))
   \<and> page_forms_of ([row_2019] @ row_bad_year # [row_2020]) = page_forms_of ([row_2019] @ [row_2020])
   \<and> (\<exists>e l1 l2. save_page_form_pdf two_page_env ([row_2019] @ row_bad_year # [row_2020]) world0
                  = (save_page_form_pdf two_page_env ([row_2019] @ [row_2020]) world0)
                       \<lparr>logged := l1 @ [SaveLog e] @ l2\<rparr> \<and>
                logged (save_page_form_pdf two_page_env ([row_2019] @ [row_2020]) world0) = l1 @ l2)"
proof -
  have h: "isl (row_current_year row_bad_year) \<or> isl (row_form_number row_bad_year)"
    by (simp add: row_bad_year_fields)
  from row_isolation [OF h, of "[row_2019]" "[row_2020]" two_page_env world0] h
  show ?thesis by blast
qed

subsection \<open>C9\<close>

text \<open>
  C9. Frame property of the fold: when a row is folded whose key is already in the
  list, the list keeps its length, every record keeps its \<open>form_number\<close> and its
  \<open>form_title\<close>, every record but the one of the key is unchanged, and in the record of
  the key at most one of \<open>min_year\<close> and \<open>max_year\<close> changes. Over a whole call, a record
  that exists after \<open>n\<close> rows is at the same index when the call ends, with the
  \<open>form_number\<close> and the \<open>form_title\<close> it had then.
\<close>

theorem fold_frame:
  assumes "row_form_number r = Inr k" and "is_key_in_dict k fs = Some i"
      and "parse_row r fs = Inr fs'"
  shows "length fs' = length fs
         \<and> map form_number fs' = map form_number fs
         \<and> map form_title fs' = map form_title fs
         \<and> (\<forall>j<length fs. j \<noteq> i \<longrightarrow> fs' ! j = fs ! j)
         \<and> (min_year (fs' ! i) = min_year (fs ! i) \<or> max_year (fs' ! i) = max_year (fs ! i))
         \<and> (\<forall>rows n j. j < length (page_forms_of (take n rows)) \<longrightarrow>
               j < length (page_forms_of rows) \<and>
               form_number (page_forms_of rows ! j) = form_number (page_forms_of (take n rows) ! j) \<and>
               form_title (page_forms_of rows ! j) = form_title (page_forms_of (take n rows) ! j))"
proof -
  have batch: "j < length (page_forms_of rows) \<and>
               form_number (page_forms_of rows ! j) = form_number (page_forms_of (take n rows) ! j) \<and>
               form_title (page_forms_of rows ! j) = form_title (page_forms_of (take n rows) ! j)"
    if j: "j < length (page_forms_of (take n rows))" for rows n j
  proof -
    let ?h = "\<lambda>f. (form_number f, form_title f)"
    from page_forms_of_prefix [of "take n rows" "drop n rows"] obtain zs where
      z: "map ?h (page_forms_of rows) = map ?h (page_forms_of (take n rows)) @ zs" by auto
    from arg_cong [OF z, of length] j have l: "j < length (page_forms_of rows)" by simp
    from arg_cong [OF z, of "\<lambda>l. l ! j"] j l
    have "?h (page_forms_of rows ! j) = ?h (page_forms_of (take n rows) ! j)"
      by (simp add: nth_append)
    with l show ?thesis by simp
  qed
  have step: "length fs' = length fs
         \<and> map form_number fs' = map form_number fs
         \<and> map form_title fs' = map form_title fs
         \<and> (\<forall>j<length fs. j \<noteq> i \<longrightarrow> fs' ! j = fs ! j)
         \<and> (min_year (fs' ! i) = min_year (fs ! i) \<or> max_year (fs' ! i) = max_year (fs ! i))"
    using assms(3)
  proof (cases rule: parse_row_Inr)
    case (1 k' y t)
    with assms show ?thesis by simp
  next
    case (2 k' y i')
    with assms have [simp]: "i' = i" by simp
    from 2(4) have i: "i < length fs" by simp
    show ?thesis using i unfolding 2(6) by (simp add: map_update list_update_same_conv)
  qed
  from step batch show ?thesis by blast
qed

theorem fold_frame_witness:
  "row_form_number row_2020 = Inr ''1040''
   \<and> is_key_in_dict ''1040'' (page_forms_of [row_2019]) = Some 0
   \<and> parse_row row_2020 (page_forms_of [row_2019]) = Inr (page_forms_of [row_2019, row_2020])
   \<and> length (page_forms_of [row_2019, row_2020]) = length (page_forms_of [row_2019])
   \<and> map form_title (page_forms_of [row_2019, row_2020]) = [''Individual Tax Return'']
   \<and> min_year (page_forms_of [row_2019, row_2020] ! 0) = 2019
   \<and> max_year (page_forms_of [row_2019, row_2020] ! 0) = 2020
   \<and> 0 < length (page_forms_of (take 1 [row_2019, row_2020]))
   \<and> form_title (page_forms_of [row_2019, row_2020] ! 0)
       = form_title (page_forms_of (take 1 [row_2019, row_2020]) ! 0)"
proof -
  have a: "page_forms_of [row_2019] =
      [\<lparr>form_number = ''1040'', form_title = ''Individual Tax Return'',
        min_year = 2019, max_year = 2019\<rparr>]"
    by (simp add: page_forms_of_def parse_row_def row_2019_fields)
  have b: "page_forms_of [row_2019, row_2020] =
      [\<lparr>form_number = ''1040'', form_title = ''Individual Tax Return'',
        min_year = 2019, max_year = 2020\<rparr>]"
    by (simp add: page_forms_of_def parse_row_def row_2019_fields row_2020_fields)
  have h1: "row_form_number row_2020 = Inr ''1040''" by (simp add: row_2020_fields)
  have h2: "is_key_in_dict ''1040'' (page_forms_of [row_2019]) = Some 0" by (simp add: a)
  have h3: "parse_row row_2020 (page_forms_of [row_2019]) = Inr (page_forms_of [row_2019, row_2020])"
    unfolding a b by (simp add: parse_row_def row_2020_fields)
  have h4: "0 < length (page_forms_of (take 1 [row_2019, row_2020]))" by (simp add: a)
  from fold_frame [OF h1 h2 h3] h1 h2 h3 h4 show ?thesis by (simp add: a b)
qed

subsection \<open>C10\<close>

text \<open>
  C10. Per-batch key uniqueness: for every sequence of rows, the records built by one
  call of \<open>parse_page_forms_json\<close> have pairwise distinct \<open>form_number\<close> values.
\<close>

theorem page_forms_distinct_keys: "distinct (map form_number (page_forms_of rows))"
  unfolding page_forms_of_def by (rule parse_loop_distinct) simp

end
